theory Spec2Isabelle
  imports Complex_Main "HOL-Library.AList" "HOL-Library.Sublist"
begin

section \<open>Python values used by detect\_image.py\<close>

text \<open>
  A Python \<open>str\<close> is modelled as a \<open>string\<close> whose characters are the code points of
  the text; only code points below 256 are representable. The exceptions that the script
  can let escape are the constructors of \<open>error\<close>; \<open>RuntimeFailure\<close> stands for whatever
  the external inference runtime or the image library raises.
\<close>

datatype error =
    FileNotFoundError
  | ValueError
  | IndexError
  | UnboundLocalError
  | AttributeError
  | RuntimeFailure

text \<open>
  A \<open>dict\<close> keeps its keys in insertion order; assigning to a key that is present
  replaces the value in place, assigning to a new key appends it.
\<close>

type_synonym ('k, 'v) dict = "('k \<times> 'v) list"

definition dict_set :: "'k \<Rightarrow> 'v \<Rightarrow> ('k, 'v) dict \<Rightarrow> ('k, 'v) dict" where
  "dict_set k v d = AList.update k v d"

definition dict_update :: "('k, 'v) dict \<Rightarrow> ('k, 'v) dict \<Rightarrow> ('k, 'v) dict" where
  \<comment> \<open>\<open>d.update(other)\<close>\<close>
  "dict_update d other = fold (\<lambda>(k, v). dict_set k v) other d"

definition dict_get :: "('k, 'v) dict \<Rightarrow> 'k \<Rightarrow> 'v option" where
  "dict_get d k = map_of d k"

subsection \<open>String methods\<close>

definition LF :: char where "LF = CHR 0x0A"
definition CR :: char where "CR = CHR 0x0D"

definition py_isspace :: "char \<Rightarrow> bool" where
  \<comment> \<open>the code points below 256 that \<open>str.isspace\<close> accepts\<close>
  "py_isspace c = (c \<in> set [CHR 0x09, CHR 0x0A, CHR 0x0B, CHR 0x0C, CHR 0x0D,
                             CHR 0x1C, CHR 0x1D, CHR 0x1E, CHR 0x1F, CHR 0x20,
                             CHR 0x85, CHR 0xA0])"

definition is_decimal :: "char \<Rightarrow> bool" where
  \<comment> \<open>the characters \<open>0\<close> to \<open>9\<close>\<close>
  "is_decimal c = (48 \<le> (of_char c :: nat) \<and> (of_char c :: nat) \<le> 57)"

definition is_digit_char :: "char \<Rightarrow> bool" where
  \<comment> \<open>\<open>str.isdigit\<close> also accepts the superscript digits U+00B2, U+00B3 and U+00B9\<close>
  "is_digit_char c = (is_decimal c \<or> c \<in> set [CHR 0xB2, CHR 0xB3, CHR 0xB9])"

definition py_isdigit :: "string \<Rightarrow> bool" where
  "py_isdigit s = (s \<noteq> [] \<and> list_all is_digit_char s)"

definition py_strip :: "string \<Rightarrow> string" where
  "py_strip s = rev (dropWhile py_isspace (rev (dropWhile py_isspace s)))"

definition split1 :: "char \<Rightarrow> string \<Rightarrow> string list" where
  \<comment> \<open>\<open>s.split(sep, maxsplit=1)\<close> for a one-character separator\<close>
  "split1 sep s =
     (case dropWhile (\<lambda>c. c \<noteq> sep) s of
        [] \<Rightarrow> [s]
      | _ # rest \<Rightarrow> [takeWhile (\<lambda>c. c \<noteq> sep) s, rest])"

fun py_split :: "char \<Rightarrow> string \<Rightarrow> string list" where
  \<comment> \<open>\<open>s.split(sep)\<close> for a one-character separator\<close>
  "py_split sep [] = [[]]"
| "py_split sep (c # cs) =
     (if c = sep then [] # py_split sep cs
      else (case py_split sep cs of
              [] \<Rightarrow> [[c]]
            | p # ps \<Rightarrow> (c # p) # ps))"

subsection \<open>\<open>int(s)\<close> and \<open>str(n)\<close>\<close>

fun int_body :: "string \<Rightarrow> bool" where
  \<comment> \<open>decimal digits, with single underscores allowed between two digits\<close>
  "int_body [] = False"
| "int_body [c] = is_decimal c"
| "int_body (c # d # cs) =
     (is_decimal c \<and> (if d = CHR ''_'' then int_body cs else int_body (d # cs)))"

definition digit_val :: "char \<Rightarrow> nat" where
  "digit_val c = of_char c - 48"

definition digits_val :: "string \<Rightarrow> nat" where
  "digits_val s = foldl (\<lambda>a c. 10 * a + digit_val c) 0 s"

definition py_int :: "string \<Rightarrow> error + int" where
  \<comment> \<open>\<open>int(s)\<close>: surrounding whitespace is dropped, one sign is allowed; the
      interpreter's limit on the number of digits is left out\<close>
  "py_int s =
     (let t = py_strip s;
          neg = (t \<noteq> [] \<and> hd t = CHR ''-'');
          body = (if t \<noteq> [] \<and> (hd t = CHR ''-'' \<or> hd t = CHR ''+'') then tl t else t)
      in if int_body body
         then (let n = int (digits_val (filter (\<lambda>c. c \<noteq> CHR ''_'') body))
               in Inr (if neg then - n else n))
         else Inl ValueError)"

fun str_nat :: "nat \<Rightarrow> string" where
  \<comment> \<open>\<open>str(n)\<close> for \<open>n \<ge> 0\<close>\<close>
  "str_nat n =
     (if n < 10 then [char_of (48 + n)]
      else str_nat (n div 10) @ [char_of (48 + n mod 10)])"

declare str_nat.simps [simp del]

subsection \<open>Reading a text file\<close>

fun translate_newlines :: "string \<Rightarrow> string" where
  \<comment> \<open>\<open>open(path, 'r')\<close> reads with universal newlines: CR LF and CR become LF\<close>
  "translate_newlines [] = []"
| "translate_newlines (c # cs) =
     (if c = CR then
        (case cs of
           [] \<Rightarrow> [LF]
         | d # ds \<Rightarrow> if d = LF then LF # translate_newlines ds
                    else LF # translate_newlines cs)
      else c # translate_newlines cs)"

fun readlines :: "string \<Rightarrow> string list" where
  \<comment> \<open>\<open>f.readlines()\<close>: every line keeps its terminating LF\<close>
  "readlines [] = []"
| "readlines (c # cs) =
     (if c = LF then [c] # readlines cs
      else (case readlines cs of
              [] \<Rightarrow> [[c]]
            | l # ls \<Rightarrow> (c # l) # ls))"

section \<open>load\_labels\<close>

text \<open>
  The file system is a function from a path to the decoded text of the file there, or
  \<open>None\<close> when \<open>open\<close> fails.
\<close>

type_synonym filesystem = "string \<Rightarrow> string option"

definition label_pair :: "string list \<Rightarrow> error + (int \<times> string)" where
  \<comment> \<open>\<open>int(index): label.strip() for index, label in pairs\<close>, for one element of pairs\<close>
  "label_pair p =
     (case p of
        [index, label] \<Rightarrow>
          (case py_int index of
             Inl e \<Rightarrow> Inl e
           | Inr k \<Rightarrow> Inr (k, py_strip label))
      | _ \<Rightarrow> Inl ValueError)"

fun indexed_labels ::
  "string list list \<Rightarrow> (int, string) dict \<Rightarrow> error + (int, string) dict" where
  "indexed_labels [] d = Inr d"
| "indexed_labels (p # ps) d =
     (case label_pair p of
        Inl e \<Rightarrow> Inl e
      | Inr (k, v) \<Rightarrow> indexed_labels ps (dict_set k v d))"

definition sequential_labels :: "string list \<Rightarrow> (int, string) dict" where
  \<comment> \<open>\<open>{index: line.strip() for index, line in enumerate(lines)}\<close>\<close>
  "sequential_labels lines =
     map (\<lambda>(index, line). (int index, py_strip line)) (enumerate 0 lines)"

definition load_labels :: "filesystem \<Rightarrow> string \<Rightarrow> error + (int, string) dict" where
  "load_labels fs path =
     (case fs path of
        None \<Rightarrow> Inl FileNotFoundError
      | Some content \<Rightarrow>
          (let lines = readlines (translate_newlines content)
           in if lines = [] then Inr []
              else if py_isdigit (hd (split1 (CHR '' '') (hd lines)))
              then indexed_labels (map (split1 (CHR '' '')) lines) []
              else Inr (sequential_labels lines)))"

text \<open>
  A line of the form \<open><integer> <label>\<close>: it has a space, \<open>int\<close> accepts what is before
  the first space, and the label is the rest of the line, stripped.
\<close>

definition line_entry :: "string \<Rightarrow> (int \<times> string) option" where
  "line_entry l =
     (if CHR '' '' \<in> set l
      then (case py_int (takeWhile (\<lambda>c. c \<noteq> CHR '' '') l) of
              Inl e \<Rightarrow> None
            | Inr k \<Rightarrow> Some (k, py_strip (tl (dropWhile (\<lambda>c. c \<noteq> CHR '' '') l))))
      else None)"

definition first_token :: "string \<Rightarrow> string" where
  \<comment> \<open>what is before the first space of a line\<close>
  "first_token l = takeWhile (\<lambda>c. c \<noteq> CHR '' '') l"

subsection \<open>Writing a label file\<close>

definition write_labels_indexed :: "string list \<Rightarrow> string" where
  \<comment> \<open>Modelled from the spec: the script has no writer of label files. The labels of the
      keys 0, 1, ... are written one per line in the format \<open><int> <label>\<close> of the
      spec's inputs.\<close>
  "write_labels_indexed ls =
     concat (map (\<lambda>(index, label). str_nat index @ '' '' @ label @ [LF]) (enumerate 0 ls))"

definition write_labels_bare :: "string list \<Rightarrow> string" where
  \<comment> \<open>Modelled from the spec: the script has no writer of label files. The labels of the
      keys 0, 1, ... are written one per line as bare labels, the other format of the
      spec's inputs.\<close>
  "write_labels_bare ls = concat (map (\<lambda>label. label @ [LF]) ls)"

definition labels_dict :: "string list \<Rightarrow> (int, string) dict" where
  \<comment> \<open>the mapping with the keys 0, 1, ... and the given labels\<close>
  "labels_dict ls = zip (map int [0 ..< length ls]) ls"

section \<open>Detections, the external runtime and the command line\<close>

text \<open>
  The decoder module \<open>detect\<close>, the inference runtime and the image library are not part
  of the script. A detection is what the script reads of it: \<open>obj.id\<close>, \<open>obj.score\<close>
  and \<open>obj.bbox\<close>, a named tuple whose components 0 to 3 are \<open>xmin\<close>, \<open>ymin\<close>,
  \<open>xmax\<close> and \<open>ymax\<close>. The coordinates are of any number type \<open>'c\<close> with
  subtraction and numerals, the scores of any type \<open>'s\<close>.
\<close>

record 'c bbox =
  xmin :: 'c
  ymin :: 'c
  xmax :: 'c
  ymax :: 'c

record ('c, 's) object =
  obj_id :: int
  score :: 's
  bbox :: "'c bbox"

text \<open>
  The world a run sees: the file system, the result of \<open>glob.glob\<close>, and the external
  calls, over an interpreter state \<open>'st\<close>, images \<open>'img\<close> and scales \<open>'k\<close>.
  \<open>interpreter_new\<close> and \<open>image_open\<close> give \<open>None\<close> when the library raises; the
  other calls are taken to return. \<open>set_input\<close> stands for \<open>detect.set_input\<close> applied
  to the interpreter and the opened image, and gives the scale.
\<close>

record ('st, 'img, 'k, 'c, 's) world =
  file_text :: filesystem
  glob_files :: "string \<Rightarrow> string list"
  interpreter_new :: "string \<Rightarrow> 'st option"
  allocate_tensors :: "'st \<Rightarrow> 'st"
  image_open :: "string \<Rightarrow> 'img option"
  set_input :: "'st \<Rightarrow> 'img \<Rightarrow> 'st \<times> 'k"
  invoke :: "'st \<Rightarrow> 'st"
  get_output :: "'st \<Rightarrow> 's \<Rightarrow> 'k \<Rightarrow> ('c, 's) object list"

text \<open>
  The namespace that \<open>parser.parse_args()\<close> returns; the field \<open>x_arg\<close> is
  \<open>args.x\<close>.
\<close>

record 's args =
  model_arg :: string
  input_arg :: "string option"
  labels_arg :: "string option"
  threshold_arg :: 's
  output_arg :: "string option"
  count_arg :: int

text \<open>
  What a run does that can be observed, in order. \<open>Print_time\<close> is the line with the
  inference time, whose value depends on the clock; \<open>Print_label\<close> carries the value of
  \<open>labels.get(obj.id, obj.id)\<close>, a label or the id itself.
\<close>

datatype ('c, 's) event =
    Print string
  | Print_time
  | Print_label "string + int"
  | Print_id int
  | Print_score 's
  | Print_bbox "'c bbox"
  | Print_w 'c
  | Print_h 'c
  | Print_i nat
  | Image_open string
  | Invoke
  | Draw_rectangle "'c \<times> 'c" "'c \<times> 'c"
  | Draw_text "'c \<times> 'c" "string + int" 's
  | Image_save string
  | Image_show

fun opened :: "('c, 's) event list \<Rightarrow> string list" where
  \<comment> \<open>the files given to \<open>Image.open\<close>, in order\<close>
  "opened [] = []"
| "opened (Image_open path # es) = path # opened es"
| "opened (e # es) = opened es"

section \<open>make\_interpreter\<close>

definition make_interpreter ::
  "('st, 'img, 'k, 'c, 's) world \<Rightarrow> string \<Rightarrow> error + 'st" where
  \<comment> \<open>\<open>model_file, *device = model_file.split('@')\<close>; \<open>device\<close> is not used\<close>
  "make_interpreter w model_file =
     (case py_split (CHR ''@'') model_file of
        [] \<Rightarrow> Inl ValueError
      | model_file' # device \<Rightarrow>
          (case interpreter_new w model_file' of
             None \<Rightarrow> Inl RuntimeFailure
           | Some it \<Rightarrow> Inr it))"

section \<open>The local variables of main\<close>

text \<open>
  \<open>objs\<close> is \<open>None\<close> while the variable is unbound. \<open>i_var\<close> is the counter \<open>i\<close>.
\<close>

record ('st, 'c, 's) state =
  interpreter :: 'st
  objs :: "('c, 's) object list option"
  img_n :: "string list"
  img_id :: "int list"
  img_x :: "'c list"
  img_y :: "'c list"
  img_w :: "'c list"
  img_h :: "'c list"
  img_score :: "'s list"
  i_var :: nat
  events :: "('c, 's) event list"

definition emit ::
  "('c, 's) event list \<Rightarrow> ('st, 'c, 's) state \<Rightarrow> ('st, 'c, 's) state" where
  "emit es st = st\<lparr>events := events st @ es\<rparr>"

definition labels_get :: "(int, string) dict \<Rightarrow> int \<Rightarrow> string + int" where
  \<comment> \<open>\<open>labels.get(obj.id, obj.id)\<close>\<close>
  "labels_get labels k = (case dict_get labels k of Some l \<Rightarrow> Inl l | None \<Rightarrow> Inr k)"

section \<open>draw\_objects\<close>

definition draw_objects ::
  "('c::{minus,numeral}, 's) object list \<Rightarrow> (int, string) dict \<Rightarrow> ('c, 's) event list" where
  "draw_objects os labels =
     concat (map (\<lambda>obj.
       [Draw_rectangle (xmin (bbox obj), ymin (bbox obj)) (xmax (bbox obj), ymax (bbox obj)),
        Draw_text (xmin (bbox obj) + 10, ymin (bbox obj) + 10)
                  (labels_get labels (obj_id obj)) (score obj)]) os)"

section \<open>main\<close>

text \<open>
  The parts of main pass the local variables along. A part that can raise returns the
  state it reached together with the exception, \<open>None\<close> when it completes. main itself
  returns what the run did and the exception that ended it.
\<close>

subsection \<open>The loop over the detections of one image\<close>

definition record_obj ::
  "(int, string) dict \<Rightarrow> string \<Rightarrow> ('c::{minus,numeral}, 's) object \<Rightarrow>
   ('st, 'c, 's) state \<Rightarrow> ('st, 'c, 's) state" where
  "record_obj labels img obj st =
     (let w = xmax (bbox obj) - xmin (bbox obj);
          h = ymax (bbox obj) - ymin (bbox obj)
      in st\<lparr>events := events st @
               [Print_label (labels_get labels (obj_id obj)),
                Print_id (obj_id obj), Print_score (score obj), Print_bbox (bbox obj),
                Print_w w, Print_h h],
             img_n := img_n st @ [img],
             img_id := img_id st @ [obj_id obj],
             img_x := img_x st @ [xmin (bbox obj)],
             img_y := img_y st @ [ymin (bbox obj)],
             img_w := img_w st @ [w],
             img_h := img_h st @ [h],
             img_score := img_score st @ [score obj]\<rparr>)"

fun record_objs ::
  "(int, string) dict \<Rightarrow> string \<Rightarrow> ('c::{minus,numeral}, 's) object list \<Rightarrow>
   ('st, 'c, 's) state \<Rightarrow> ('st, 'c, 's) state" where
  "record_objs labels img [] st = st"
| "record_objs labels img (obj # os) st = record_objs labels img os (record_obj labels img obj st)"

subsection \<open>The body of the loop over the images\<close>

fun inference ::
  "('st, 'img, 'k, 'c, 's) world \<Rightarrow> 's \<Rightarrow> 'k \<Rightarrow> nat \<Rightarrow>
   ('st, 'c, 's) state \<Rightarrow> ('st, 'c, 's) state" where
  \<comment> \<open>\<open>for _ in range(args.count)\<close>: invoke, decode, print the time\<close>
  "inference w thr scale 0 st = st"
| "inference w thr scale (Suc n) st =
     inference w thr scale n
       (let it = invoke w (interpreter st)
        in st\<lparr>interpreter := it,
               objs := Some (get_output w it thr scale),
               events := events st @ [Invoke, Print_time]\<rparr>)"

definition annotate ::
  "'s args \<Rightarrow> (int, string) dict \<Rightarrow> ('c::{minus,numeral}, 's) object list \<Rightarrow>
   ('st, 'c, 's) state \<Rightarrow> ('st, 'c, 's) state" where
  \<comment> \<open>\<open>if args.output:\<close> draw, save and show\<close>
  "annotate a labels os st =
     (case output_arg a of
        None \<Rightarrow> st
      | Some out \<Rightarrow>
          if out = [] then st
          else emit (draw_objects os labels @ [Image_save out, Image_show]) st)"

definition results ::
  "'s args \<Rightarrow> (int, string) dict \<Rightarrow> string \<Rightarrow>
   ('st, 'c::{minus,numeral}, 's) state \<Rightarrow> ('st, 'c, 's) state \<times> error option" where
  \<comment> \<open>from \<open>print('-------RESULTS--------')\<close> to \<open>i += 1\<close>\<close>
  "results a labels img st =
     (let st1 = emit [Print ''-------RESULTS--------''] st
      in case objs st1 of
           None \<Rightarrow> (st1, Some UnboundLocalError)
         | Some os \<Rightarrow>
             (let st2 = (if os = [] then emit [Print ''No objects detected''] st1 else st1);
                  st3 = record_objs labels img os st2;
                  st4 = emit [Print_i (i_var st3)] st3;
                  st5 = annotate a labels os st4
              in (st5\<lparr>i_var := i_var st5 + 1\<rparr>, None)))"

definition run_inference ::
  "('st, 'img, 'k, 'c, 's) world \<Rightarrow> 's args \<Rightarrow> 'img \<Rightarrow>
   ('st, 'c, 's) state \<Rightarrow> ('st, 'c, 's) state" where
  \<comment> \<open>from \<open>detect.set_input\<close> to the end of the timing loop\<close>
  "run_inference w a im st =
     (let (it, scale) = set_input w (interpreter st) im;
          st1 = emit [Print ''----INFERENCE TIME----'',
                      Print ''Note: The first inference is slow because it includes loading the model into Edge TPU memory.'']
                     (st\<lparr>interpreter := it\<rparr>)
      in inference w (threshold_arg a) scale (nat (count_arg a)) st1)"

definition process_image ::
  "('st, 'img, 'k, 'c::{minus,numeral}, 's) world \<Rightarrow> 's args \<Rightarrow> (int, string) dict \<Rightarrow>
   string \<Rightarrow> ('st, 'c, 's) state \<Rightarrow> ('st, 'c, 's) state \<times> error option" where
  "process_image w a labels img st =
     (let st1 = emit [Image_open img] st
      in case image_open w img of
           None \<Rightarrow> (st1, Some RuntimeFailure)
         | Some im \<Rightarrow> results a labels img (run_inference w a im st1))"

fun image_loop ::
  "('st, 'img, 'k, 'c::{minus,numeral}, 's) world \<Rightarrow> 's args \<Rightarrow> (int, string) dict \<Rightarrow>
   string list \<Rightarrow> ('st, 'c, 's) state \<Rightarrow> ('st, 'c, 's) state \<times> error option" where
  "image_loop w a labels [] st = (st, None)"
| "image_loop w a labels (img # imgs) st =
     (case process_image w a labels img st of
        (st', Some e) \<Rightarrow> (st', Some e)
      | (st', None) \<Rightarrow> image_loop w a labels imgs st')"

subsection \<open>The table\<close>

datatype ('c, 's) cell =
    Filename string
  | Ids "int list"
  | Coords "'c list"
  | Scores "'s list"

definition img_dict ::
  "string \<Rightarrow> ('st, 'c, 's) state \<Rightarrow> (string, ('c, 's) cell) dict" where
  "img_dict name st =
     [(''image_filename'', Filename name),
      (''label_id'', Ids (img_id st)),
      (''x'', Coords (img_x st)),
      (''y'', Coords (img_y st)),
      (''w'', Coords (img_w st)),
      (''h'', Coords (img_h st)),
      (''confidence'', Scores (img_score st))]"

fun csv_loop ::
  "('st, 'c, 's) state \<Rightarrow> nat list \<Rightarrow> (string, ('c, 's) cell) dict \<Rightarrow>
   error + (string, ('c, 's) cell) dict" where
  \<comment> \<open>\<open>for i in range(len(img_x))\<close>, with \<open>img_csv\<close> passed along\<close>
  "csv_loop st [] img_csv = Inr img_csv"
| "csv_loop st (i # is) img_csv =
     (if i < length (img_n st)
      then csv_loop st is (dict_update img_csv (img_dict (img_n st ! i) st))
      else Inl IndexError)"

definition build_csv ::
  "('st, 'c, 's) state \<Rightarrow> error + (string, ('c, 's) cell) dict" where
  "build_csv st = csv_loop st [0 ..< length (img_x st)] []"

definition to_csv :: "(string, ('c, 's) cell) dict \<Rightarrow> string \<Rightarrow> error + unit" where
  \<comment> \<open>\<open>img_csv\<close> is a built-in \<open>dict\<close>: looking up the attribute \<open>to_csv\<close> raises\<close>
  "to_csv img_csv path = Inl AttributeError"

subsection \<open>The whole run\<close>

definition initial_state :: "'st \<Rightarrow> string \<Rightarrow> ('st, 'c, 's) state" where
  "initial_state it name =
     \<lparr>interpreter = it, objs = None, img_n = [], img_id = [], img_x = [], img_y = [],
      img_w = [], img_h = [], img_score = [], i_var = 0, events = [Print name]\<rparr>"

definition labels_of_args ::
  "('st, 'img, 'k, 'c, 's) world \<Rightarrow> 's args \<Rightarrow> error + (int, string) dict" where
  \<comment> \<open>\<open>load_labels(args.labels) if args.labels else {}\<close>\<close>
  "labels_of_args w a =
     (case labels_arg a of
        None \<Rightarrow> Inr []
      | Some path \<Rightarrow> if path = [] then Inr [] else load_labels (file_text w) path)"

definition main ::
  "('st, 'img, 'k, 'c::{minus,numeral}, 's) world \<Rightarrow> 's args \<Rightarrow>
   ('c, 's) event list \<times> error option" where
  "main w a =
     (case labels_of_args w a of
        Inl e \<Rightarrow> ([], Some e)
      | Inr labels \<Rightarrow>
          (case make_interpreter w (model_arg a) of
             Inl e \<Rightarrow> ([], Some e)
           | Inr it \<Rightarrow>
               (let it' = allocate_tensors w it;
                    img_name = glob_files w ''test_images/*.jpg''
                in if 253 < length img_name
                   then (case image_loop w a labels img_name
                                (initial_state it' (img_name ! 253)) of
                           (st, Some e) \<Rightarrow> (events st, Some e)
                         | (st, None) \<Rightarrow>
                             (case build_csv st of
                                Inl e \<Rightarrow> (events st, Some e)
                              | Inr img_csv \<Rightarrow>
                                  (case to_csv img_csv ''test.csv'' of
                                     Inl e \<Rightarrow> (events st, Some e)
                                   | Inr _ \<Rightarrow> (events st, None))))
                   else ([], Some IndexError))))"

section \<open>Stubs for concrete runs\<close>

text \<open>
  A deterministic world for concrete runs: every image opens, the interpreter state counts
  the invocations, and the decoder returns the detections of a fixed list whose score
  reaches the threshold.
\<close>

definition stub_world ::
  "string list \<Rightarrow> filesystem \<Rightarrow> (int, real) object list \<Rightarrow> (nat, string, unit, int, real) world" where
  "stub_world files fs dets =
     \<lparr>file_text = fs,
      glob_files = (\<lambda>pattern. if pattern = ''test_images/*.jpg'' then files else []),
      interpreter_new = (\<lambda>path. Some 0),
      allocate_tensors = (\<lambda>it. it),
      image_open = (\<lambda>path. Some path),
      set_input = (\<lambda>it im. (it, ())),
      invoke = Suc,
      get_output = (\<lambda>it thr scale. filter (\<lambda>ob. thr \<le> score ob) dets)\<rparr>"

definition default_args :: "real args" where
  "default_args =
     \<lparr>model_arg = ''model.tflite'', input_arg = None, labels_arg = None,
      threshold_arg = 4 / 10, output_arg = None, count_arg = 5\<rparr>"

definition one_detection :: "(int, real) object" where
  "one_detection =
     \<lparr>obj_id = 7, score = 9 / 10, bbox = \<lparr>xmin = 10, ymin = 20, xmax = 110, ymax = 220\<rparr>\<rparr>"

definition weak_detection :: "(int, real) object" where
  "weak_detection =
     \<lparr>obj_id = 3, score = 1 / 10, bbox = \<lparr>xmin = 1, ymin = 2, xmax = 3, ymax = 4\<rparr>\<rparr>"

definition two_images :: "string list" where
  "two_images = [''test_images/a.jpg'', ''test_images/b.jpg'']"

definition many_files :: "string list" where
  "many_files = map (\<lambda>n. ''test_images/'' @ str_nat n @ ''.jpg'') [0 ..< 254]"

definition labels_fs :: "string \<Rightarrow> filesystem" where
  \<comment> \<open>a file system with the one file \<open>labels.txt\<close>\<close>
  "labels_fs content = (\<lambda>path. if path = ''labels.txt'' then Some content else None)"

section \<open>Properties of the parts of main\<close>

lemma emit_sel:
  "interpreter (emit es st) = interpreter st"
  "objs (emit es st) = objs st"
  "img_n (emit es st) = img_n st"
  "img_id (emit es st) = img_id st"
  "img_x (emit es st) = img_x st"
  "img_y (emit es st) = img_y st"
  "img_w (emit es st) = img_w st"
  "img_h (emit es st) = img_h st"
  "img_score (emit es st) = img_score st"
  "i_var (emit es st) = i_var st"
  "events (emit es st) = events st @ es"
  by (simp_all add: emit_def)

lemma annotate_sel:
  "interpreter (annotate a labels os st) = interpreter st"
  "objs (annotate a labels os st) = objs st"
  "img_n (annotate a labels os st) = img_n st"
  "img_id (annotate a labels os st) = img_id st"
  "img_x (annotate a labels os st) = img_x st"
  "img_y (annotate a labels os st) = img_y st"
  "img_w (annotate a labels os st) = img_w st"
  "img_h (annotate a labels os st) = img_h st"
  "img_score (annotate a labels os st) = img_score st"
  "i_var (annotate a labels os st) = i_var st"
  by (simp_all add: annotate_def emit_sel split: option.split)


lemma record_objs_sel:
  "interpreter (record_objs labels img os st) = interpreter st"
  "objs (record_objs labels img os st) = objs st"
  "img_n (record_objs labels img os st) = img_n st @ map (\<lambda>ob. img) os"
  "img_id (record_objs labels img os st) = img_id st @ map obj_id os"
  "img_x (record_objs labels img os st) = img_x st @ map (\<lambda>ob. xmin (bbox ob)) os"
  "img_y (record_objs labels img os st) = img_y st @ map (\<lambda>ob. ymin (bbox ob)) os"
  "img_w (record_objs labels img os st) = img_w st @ map (\<lambda>ob. xmax (bbox ob) - xmin (bbox ob)) os"
  "img_h (record_objs labels img os st) = img_h st @ map (\<lambda>ob. ymax (bbox ob) - ymin (bbox ob)) os"
  "img_score (record_objs labels img os st) = img_score st @ map score os"
  "i_var (record_objs labels img os st) = i_var st"
  by (induction os arbitrary: st; simp add: record_obj_def Let_def)+

lemma record_objs_events:
  "events (record_objs labels img os st) =
     events st @ concat (map (\<lambda>ob.
       [Print_label (labels_get labels (obj_id ob)), Print_id (obj_id ob),
        Print_score (score ob), Print_bbox (bbox ob),
        Print_w (xmax (bbox ob) - xmin (bbox ob)),
        Print_h (ymax (bbox ob) - ymin (bbox ob))]) os)"
  by (induction os arbitrary: st) (simp_all add: record_obj_def Let_def)

lemma inference_sel:
  "img_n (inference w thr sc n st) = img_n st"
  "img_id (inference w thr sc n st) = img_id st"
  "img_x (inference w thr sc n st) = img_x st"
  "img_y (inference w thr sc n st) = img_y st"
  "img_w (inference w thr sc n st) = img_w st"
  "img_h (inference w thr sc n st) = img_h st"
  "img_score (inference w thr sc n st) = img_score st"
  "i_var (inference w thr sc n st) = i_var st"
  by (induction n arbitrary: st; simp add: Let_def)+

lemma inference_events:
  "events (inference w thr sc n st) = events st @ concat (replicate n [Invoke, Print_time])"
  by (induction n arbitrary: st) (simp_all add: Let_def)


lemma inference_objs_bound: "objs st \<noteq> None \<Longrightarrow> objs (inference w thr sc n st) \<noteq> None"
  by (induction n arbitrary: st) (simp_all add: Let_def)

lemma inference_objs_pos: "0 < n \<Longrightarrow> objs (inference w thr sc n st) \<noteq> None"
  by (cases n) (simp_all add: Let_def inference_objs_bound)

lemma results_unbound:
  "objs st = None \<Longrightarrow>
   results a labels img st = (emit [Print ''-------RESULTS--------''] st, Some UnboundLocalError)"
  by (simp add: results_def emit_sel Let_def)

lemma results_bound:
  assumes "objs st = Some os"
  shows "snd (results a labels img st) = None"
    and "objs (fst (results a labels img st)) = Some os"
    and "img_n (fst (results a labels img st)) = img_n st @ map (\<lambda>ob. img) os"
    and "img_id (fst (results a labels img st)) = img_id st @ map obj_id os"
    and "img_x (fst (results a labels img st)) = img_x st @ map (\<lambda>ob. xmin (bbox ob)) os"
    and "img_y (fst (results a labels img st)) = img_y st @ map (\<lambda>ob. ymin (bbox ob)) os"
    and "img_w (fst (results a labels img st)) = img_w st @ map (\<lambda>ob. xmax (bbox ob) - xmin (bbox ob)) os"
    and "img_h (fst (results a labels img st)) = img_h st @ map (\<lambda>ob. ymax (bbox ob) - ymin (bbox ob)) os"
    and "img_score (fst (results a labels img st)) = img_score st @ map score os"
  using assms
  by (simp_all add: results_def Let_def emit_sel annotate_sel record_objs_sel)


lemma run_inference_sel:
  "img_n (run_inference w a im st) = img_n st"
  "img_id (run_inference w a im st) = img_id st"
  "img_x (run_inference w a im st) = img_x st"
  "img_y (run_inference w a im st) = img_y st"
  "img_w (run_inference w a im st) = img_w st"
  "img_h (run_inference w a im st) = img_h st"
  "img_score (run_inference w a im st) = img_score st"
  "i_var (run_inference w a im st) = i_var st"
  by (simp_all add: run_inference_def Let_def inference_sel emit_sel split: prod.split)

lemma run_inference_events:
  "events (run_inference w a im st) = events st @
     [Print ''----INFERENCE TIME----'',
      Print ''Note: The first inference is slow because it includes loading the model into Edge TPU memory.''] @
     concat (replicate (nat (count_arg a)) [Invoke, Print_time])"
  by (simp add: run_inference_def Let_def inference_events emit_sel split: prod.split)


lemma run_inference_bound:
  assumes "0 < count_arg a \<or> objs st \<noteq> None"
  shows "objs (run_inference w a im st) \<noteq> None"
proof -
  obtain it sc where s: "set_input w (interpreter st) im = (it, sc)"
    by (cases "set_input w (interpreter st) im")
  define st1 where "st1 = emit [Print ''----INFERENCE TIME----'',
      Print ''Note: The first inference is slow because it includes loading the model into Edge TPU memory.'']
     (st\<lparr>interpreter := it\<rparr>)"
  have *: "run_inference w a im st = inference w (threshold_arg a) sc (nat (count_arg a)) st1"
    by (simp add: run_inference_def s st1_def)
  from assms show ?thesis
  proof
    assume "0 < count_arg a"
    then have "0 < nat (count_arg a)" by simp
    then show ?thesis unfolding * by (rule inference_objs_pos)
  next
    assume "objs st \<noteq> None"
    then have "objs st1 \<noteq> None" by (simp add: st1_def emit_sel)
    then show ?thesis unfolding * by (rule inference_objs_bound)
  qed
qed

lemma process_image_fail:
  "image_open w img = None \<Longrightarrow>
   process_image w a labels img st = (emit [Image_open img] st, Some RuntimeFailure)"
  by (simp add: process_image_def Let_def)

lemma process_image_open:
  "image_open w img = Some im \<Longrightarrow>
   process_image w a labels img st =
     results a labels img (run_inference w a im (emit [Image_open img] st))"
  by (simp add: process_image_def Let_def)

lemma csv_loop_append:
  "csv_loop st (is @ js) d =
     (case csv_loop st is d of Inl e \<Rightarrow> Inl e | Inr d' \<Rightarrow> csv_loop st js d')"
  by (induction "is" arbitrary: d) simp_all

lemma dict_update_img_dict:
  "dict_update [] (img_dict m st) = img_dict m st"
  "dict_update (img_dict n st) (img_dict m st) = img_dict m st"
  by (simp_all add: dict_update_def img_dict_def dict_set_def)

lemma csv_loop_upt:
  "k \<le> length (img_n st) \<Longrightarrow>
   csv_loop st [0 ..< k] [] = Inr (if k = 0 then [] else img_dict (img_n st ! (k - 1)) st)"
proof (induction k)
  case 0
  show ?case by simp
next
  case (Suc k)
  have "csv_loop st [0 ..< Suc k] [] =
      (case csv_loop st [0 ..< k] [] of Inl e \<Rightarrow> Inl e | Inr d' \<Rightarrow> csv_loop st [k] d')"
    using csv_loop_append [of st "[0 ..< k]" "[k]" "[]"] by simp
  also have "\<dots> = csv_loop st [k] (if k = 0 then [] else img_dict (img_n st ! (k - 1)) st)"
    using Suc by simp
  also have "\<dots> = Inr (img_dict (img_n st ! k) st)"
    using Suc.prems by (simp add: dict_update_img_dict)
  finally show ?case by simp
qed

lemma py_split_first: "sep \<notin> set m \<Longrightarrow> py_split sep (m @ sep # d) = m # py_split sep d"
  by (induction m) auto



lemma process_image_completes:
  assumes "image_open w img = Some im" and "0 < count_arg a \<or> objs st \<noteq> None"
  shows "snd (process_image w a labels img st) = None"
proof -
  have "objs (run_inference w a im (emit [Image_open img] st)) \<noteq> None"
    using assms(2) by (intro run_inference_bound) (simp add: emit_sel)
  then obtain os where "objs (run_inference w a im (emit [Image_open img] st)) = Some os"
    by blast
  then show ?thesis
    using assms(1) by (simp add: process_image_open results_bound(1))
qed

lemma opened_append: "opened (xs @ ys) = opened xs @ opened ys"
  by (induction xs rule: opened.induct) simp_all

lemma opened_draw_objects: "opened (draw_objects os labels) = []"
  by (induction os) (simp_all add: draw_objects_def)

lemma opened_annotate: "opened (events (annotate a labels os st)) = opened (events st)"
  by (simp add: annotate_def emit_sel opened_append opened_draw_objects split: option.split)

lemma opened_record_objs: "opened (events (record_objs labels img os st)) = opened (events st)"
  by (induction os arbitrary: st) (simp_all add: record_obj_def Let_def opened_append)

lemma opened_replicate: "opened (concat (replicate n [Invoke, Print_time])) = []"
  by (induction n) simp_all

lemma opened_results: "opened (events (fst (results a labels img st))) = opened (events st)"
proof (cases "objs st")
  case None
  then show ?thesis by (simp add: results_unbound emit_sel opened_append)
next
  case (Some os)
  then show ?thesis
    by (simp add: results_def Let_def emit_sel opened_annotate opened_record_objs opened_append)
qed

lemma opened_process_image:
  "opened (events (fst (process_image w a labels img st))) = opened (events st) @ [img]"
proof (cases "image_open w img")
  case None
  then show ?thesis by (simp add: process_image_fail emit_sel opened_append)
next
  case (Some im)
  then show ?thesis
    by (simp add: process_image_open opened_results run_inference_events emit_sel
        opened_append opened_replicate)
qed

lemma opened_image_loop:
  "\<exists>ys. prefix ys imgs \<and>
        opened (events (fst (image_loop w a labels imgs st))) = opened (events st) @ ys"
proof (induction imgs arbitrary: st)
  case Nil
  show ?case by simp
next
  case (Cons img imgs)
  obtain st' r where p: "process_image w a labels img st = (st', r)"
    by (cases "process_image w a labels img st")
  have o: "opened (events st') = opened (events st) @ [img]"
    using opened_process_image [of w a labels img st] p by simp
  show ?case
  proof (cases r)
    case None
    obtain ys where "prefix ys imgs"
      "opened (events (fst (image_loop w a labels imgs st'))) = opened (events st') @ ys"
      using Cons.IH by blast
    then have "prefix (img # ys) (img # imgs) \<and>
        opened (events (fst (image_loop w a labels (img # imgs) st))) =
        opened (events st) @ img # ys"
      using p None o by simp
    then show ?thesis by blast
  next
    case (Some e)
    then have "prefix [img] (img # imgs) \<and>
        opened (events (fst (image_loop w a labels (img # imgs) st))) =
        opened (events st) @ [img]"
      using p o by simp
    then show ?thesis by blast
  qed
qed

lemma args_input:
  "model_arg (a\<lparr>input_arg := x\<rparr>) = model_arg a"
  "labels_arg (a\<lparr>input_arg := x\<rparr>) = labels_arg a"
  "threshold_arg (a\<lparr>input_arg := x\<rparr>) = threshold_arg a"
  "output_arg (a\<lparr>input_arg := x\<rparr>) = output_arg a"
  "count_arg (a\<lparr>input_arg := x\<rparr>) = count_arg a"
  by simp_all

lemma annotate_input: "annotate (a\<lparr>input_arg := x\<rparr>) labels os st = annotate a labels os st"
  unfolding annotate_def args_input by (rule refl)

lemma results_input: "results (a\<lparr>input_arg := x\<rparr>) labels img st = results a labels img st"
  unfolding results_def annotate_input by (rule refl)

lemma run_inference_input: "run_inference w (a\<lparr>input_arg := x\<rparr>) im st = run_inference w a im st"
  unfolding run_inference_def args_input by (rule refl)

lemma process_image_input:
  "process_image w (a\<lparr>input_arg := x\<rparr>) labels img st = process_image w a labels img st"
  unfolding process_image_def results_input run_inference_input by (rule refl)

lemma image_loop_input:
  "image_loop w (a\<lparr>input_arg := x\<rparr>) labels imgs st = image_loop w a labels imgs st"
  by (induction imgs arbitrary: st) (simp_all add: process_image_input)

lemma main_input: "main w (a\<lparr>input_arg := x\<rparr>) = main w a"
  unfolding main_def labels_of_args_def image_loop_input args_input by (rule refl)

lemma main_early:
  "labels_of_args w a = Inl e \<Longrightarrow> main w a = ([], Some e)"
  "labels_of_args w a = Inr ls \<Longrightarrow> make_interpreter w (model_arg a) = Inl e \<Longrightarrow>
   main w a = ([], Some e)"
  "labels_of_args w a = Inr ls \<Longrightarrow> make_interpreter w (model_arg a) = Inr it \<Longrightarrow>
   \<not> 253 < length (glob_files w ''test_images/*.jpg'') \<Longrightarrow>
   main w a = ([], Some IndexError)"
  by (simp_all add: main_def)

lemma main_loop:
  assumes "labels_of_args w a = Inr ls"
    and "make_interpreter w (model_arg a) = Inr it"
    and "253 < length (glob_files w ''test_images/*.jpg'')"
    and "image_loop w a ls (glob_files w ''test_images/*.jpg'')
           (initial_state (allocate_tensors w it) (glob_files w ''test_images/*.jpg'' ! 253)) =
         (st, r)"
  shows "main w a =
     (events st,
      case r of
        Some e \<Rightarrow> Some e
      | None \<Rightarrow> (case build_csv st of Inl e \<Rightarrow> Some e | Inr img_csv \<Rightarrow> Some AttributeError))"
  using assms by (simp add: main_def to_csv_def split: option.split sum.split)

lemma main_events:
  "fst (main w a) = [] \<or>
   (\<exists>ls it. fst (main w a) =
      events (fst (image_loop w a ls (glob_files w ''test_images/*.jpg'')
        (initial_state it (glob_files w ''test_images/*.jpg'' ! 253)))))"
proof (cases "labels_of_args w a")
  case (Inl e)
  then show ?thesis by (simp add: main_early)
next
  case (Inr ls)
  note ls = this
  show ?thesis
  proof (cases "make_interpreter w (model_arg a)")
    case (Inl e)
    with ls show ?thesis by (simp add: main_early)
  next
    case (Inr it)
    show ?thesis
    proof (cases "253 < length (glob_files w ''test_images/*.jpg'')")
      case False
      with ls Inr show ?thesis by (simp add: main_early)
    next
      case True
      obtain st r where "image_loop w a ls (glob_files w ''test_images/*.jpg'')
           (initial_state (allocate_tensors w it) (glob_files w ''test_images/*.jpg'' ! 253)) =
         (st, r)"
        by (cases "image_loop w a ls (glob_files w ''test_images/*.jpg'')
           (initial_state (allocate_tensors w it) (glob_files w ''test_images/*.jpg'' ! 253))")
      from main_loop [OF ls Inr True this] this
      have "fst (main w a) = events (fst (image_loop w a ls (glob_files w ''test_images/*.jpg'')
           (initial_state (allocate_tensors w it) (glob_files w ''test_images/*.jpg'' ! 253))))"
        by simp
      then show ?thesis by blast
    qed
  qed
qed

lemma process_image_aligned:
  assumes "length (img_n st) = length (img_x st)"
  shows "length (img_n (fst (process_image w a labels img st))) =
         length (img_x (fst (process_image w a labels img st)))"
proof (cases "image_open w img")
  case None
  then show ?thesis using assms by (simp add: process_image_fail emit_sel)
next
  case (Some im)
  define st3 where "st3 = run_inference w a im (emit [Image_open img] st)"
  have l: "length (img_n st3) = length (img_x st3)"
    using assms by (simp add: st3_def run_inference_sel emit_sel)
  have p: "process_image w a labels img st = results a labels img st3"
    using Some by (simp add: process_image_open st3_def)
  show ?thesis
  proof (cases "objs st3")
    case None
    then show ?thesis using l p by (simp add: results_unbound emit_sel)
  next
    case (Some os)
    then show ?thesis using l p by (simp add: results_bound)
  qed
qed

lemma image_loop_aligned:
  "length (img_n st) = length (img_x st) \<Longrightarrow>
   length (img_n (fst (image_loop w a labels imgs st))) =
   length (img_x (fst (image_loop w a labels imgs st)))"
proof (induction imgs arbitrary: st)
  case Nil
  then show ?case by simp
next
  case (Cons img imgs)
  obtain st' r where p: "process_image w a labels img st = (st', r)"
    by (cases "process_image w a labels img st")
  have l: "length (img_n st') = length (img_x st')"
    using process_image_aligned [OF Cons.prems, of w a labels img] p by simp
  show ?case
  proof (cases r)
    case None
    then show ?thesis using p Cons.IH [OF l] by simp
  next
    case (Some e)
    then show ?thesis using p l by simp
  qed
qed

lemma process_image_objs:
  assumes "process_image w a labels img st = (st', None)"
  shows "objs st' \<noteq> None"
proof -
  obtain im where im: "image_open w img = Some im"
    using assms by (cases "image_open w img") (simp_all add: process_image_fail)
  define st3 where "st3 = run_inference w a im (emit [Image_open img] st)"
  have p: "results a labels img st3 = (st', None)"
    using assms im by (simp add: process_image_open st3_def)
  then obtain os where o: "objs st3 = Some os"
    by (cases "objs st3") (simp_all add: results_unbound)
  have "fst (results a labels img st3) = st'"
    using p by simp
  then show ?thesis
    using results_bound(2) [OF o, of a labels img] by auto
qed

lemma image_loop_completes:
  "\<forall>img \<in> set imgs. image_open w img \<noteq> None \<Longrightarrow> 0 < count_arg a \<or> objs st \<noteq> None \<Longrightarrow>
   snd (image_loop w a labels imgs st) = None"
proof (induction imgs arbitrary: st)
  case Nil
  show ?case by simp
next
  case (Cons img imgs)
  obtain im where im: "image_open w img = Some im"
    using Cons.prems(1) by auto
  have "snd (process_image w a labels img st) = None"
    using process_image_completes [OF im Cons.prems(2)] .
  then obtain st' where p: "process_image w a labels img st = (st', None)"
    by (cases "process_image w a labels img st") simp
  have "objs st' \<noteq> None"
    using process_image_objs [OF p] .
  then have "snd (image_loop w a labels imgs st') = None"
    using Cons.IH [of st'] Cons.prems(1) by simp
  then show ?case using p by simp
qed

lemma build_csv_aligned:
  assumes "length (img_n st) = length (img_x st)"
  shows "\<exists>d. build_csv st = Inr d"
  using csv_loop_upt [of "length (img_x st)" st] assms by (simp add: build_csv_def)

lemma main_raises: "\<exists>e. snd (main w a) = Some e"
proof (cases "labels_of_args w a")
  case (Inl e)
  then show ?thesis by (simp add: main_early)
next
  case (Inr ls)
  note ls = this
  show ?thesis
  proof (cases "make_interpreter w (model_arg a)")
    case (Inl e)
    with ls show ?thesis by (simp add: main_early)
  next
    case (Inr it)
    show ?thesis
    proof (cases "253 < length (glob_files w ''test_images/*.jpg'')")
      case False
      with ls Inr show ?thesis by (simp add: main_early)
    next
      case True
      obtain st r where "image_loop w a ls (glob_files w ''test_images/*.jpg'')
           (initial_state (allocate_tensors w it) (glob_files w ''test_images/*.jpg'' ! 253)) =
         (st, r)"
        by (cases "image_loop w a ls (glob_files w ''test_images/*.jpg'')
           (initial_state (allocate_tensors w it) (glob_files w ''test_images/*.jpg'' ! 253))")
      from main_loop [OF ls Inr True this]
      show ?thesis by (simp split: option.split sum.split)
    qed
  qed
qed

subsection \<open>Label files\<close>

lemma hd_split1: "hd (split1 sep s) = takeWhile (\<lambda>c. c \<noteq> sep) s"
proof (cases "dropWhile (\<lambda>c. c \<noteq> sep) s")
  case Nil
  have t: "s = takeWhile (\<lambda>c. c \<noteq> sep) s"
    using Nil by (metis takeWhile_dropWhile_id append_Nil2)
  show ?thesis unfolding split1_def Nil list.case list.sel by (rule t)
next
  case (Cons c rest)
  show ?thesis unfolding split1_def Cons by simp
qed

lemma py_int_error: "py_int s = Inl e \<Longrightarrow> e = ValueError"
  by (auto simp add: py_int_def Let_def split: if_splits)

lemma label_pair_split1:
  "label_pair (split1 (CHR '' '') l) =
     (case line_entry l of Some kv \<Rightarrow> Inr kv | None \<Rightarrow> Inl ValueError)"
proof (cases "dropWhile (\<lambda>c. c \<noteq> CHR '' '') l")
  case Nil
  then have "CHR '' '' \<notin> set l"
    by auto
  then show ?thesis
    unfolding split1_def Nil by (simp add: label_pair_def line_entry_def)
next
  case (Cons c rest)
  then have "CHR '' '' \<in> set l"
    using dropWhile_eq_Nil_conv [of "\<lambda>c. c \<noteq> CHR '' ''" l] by auto
  then show ?thesis
    unfolding split1_def Cons
    by (auto simp add: label_pair_def line_entry_def Cons split: sum.split dest: py_int_error)
qed

lemma indexed_labels_entries:
  "map line_entry ls = map Some kvs \<Longrightarrow>
   indexed_labels (map (split1 (CHR '' '')) ls) d = Inr (dict_update d kvs)"
proof (induction ls arbitrary: kvs d)
  case Nil
  then show ?case by (simp add: dict_update_def)
next
  case (Cons l ls)
  then obtain kv kvs' where k: "kvs = kv # kvs'" "line_entry l = Some kv"
    "map line_entry ls = map Some kvs'"
    by (cases kvs) auto
  show ?case
    using Cons.IH [OF k(3)] k(1,2)
    by (cases kv) (simp add: label_pair_split1 dict_update_def)
qed


lemma dict_set_new: "k \<notin> fst ` set d \<Longrightarrow> dict_set k v d = d @ [(k, v)]"
  by (induction d) (auto simp add: dict_set_def)

lemma dict_update_distinct:
  "distinct (map fst (d @ kvs)) \<Longrightarrow> dict_update d kvs = d @ kvs"
proof (induction kvs arbitrary: d)
  case Nil
  show ?case by (simp add: dict_update_def)
next
  case (Cons kv kvs)
  have n: "fst kv \<notin> fst ` set d"
    using Cons.prems by auto
  have "dict_update d (kv # kvs) = dict_update (dict_set (fst kv) (snd kv) d) kvs"
    by (simp add: dict_update_def case_prod_beta)
  also have "\<dots> = dict_update (d @ [kv]) kvs"
    using n by (simp add: dict_set_new)
  also have "\<dots> = (d @ [kv]) @ kvs"
    using Cons.prems by (intro Cons.IH) simp
  finally show ?case by simp
qed


lemma sequential_labels_zip:
  "sequential_labels lines = zip (map int [0 ..< length lines]) (map py_strip lines)"
proof -
  have "map (\<lambda>(index, line). (int index, py_strip line)) (enumerate n lines) =
      zip (map int [n ..< n + length lines]) (map py_strip lines)" for n
    by (induction lines arbitrary: n) (simp_all add: upt_conv_Cons del: upt_Suc)
  from this [of 0] show ?thesis
    by (simp add: sequential_labels_def)
qed

lemma load_labels_lines:
  assumes "fs path = Some content" and "lines = readlines (translate_newlines content)"
  shows "load_labels fs path =
     (if lines = [] then Inr []
      else if py_isdigit (first_token (hd lines))
      then indexed_labels (map (split1 (CHR '' '')) lines) []
      else Inr (sequential_labels lines))"
  using assms by (simp add: load_labels_def Let_def hd_split1 first_token_def)

lemma is_decimal_digit: "d < 10 \<Longrightarrow> is_decimal (char_of (48 + d :: nat))"
  by (simp add: is_decimal_def)

lemma digit_val_digit: "d < 10 \<Longrightarrow> digit_val (char_of (48 + d :: nat)) = d"
  by (simp add: digit_val_def)

lemma str_nat_decimal: "list_all is_decimal (str_nat n) \<and> str_nat n \<noteq> []"
proof (induction n rule: str_nat.induct)
  case (1 n)
  show ?case
  proof (cases "n < 10")
    case True
    then show ?thesis by (subst (1 2) str_nat.simps) (simp add: is_decimal_digit)
  next
    case False
    then show ?thesis
      using "1.IH" by (subst (1 2) str_nat.simps) (simp add: is_decimal_digit)
  qed
qed

lemma decimal_plain:
  assumes "is_decimal c"
  shows "\<not> py_isspace c" "c \<noteq> CHR '' ''" "c \<noteq> CHR ''_''" "c \<noteq> CHR ''-''" "c \<noteq> CHR ''+''"
    "c \<noteq> LF" "c \<noteq> CR" "is_digit_char c"
  using assms by (auto simp add: is_decimal_def py_isspace_def LF_def CR_def is_digit_char_def)

lemma py_strip_id:
  assumes "s = [] \<or> (\<not> py_isspace (hd s) \<and> \<not> py_isspace (last s))"
  shows "py_strip s = s"
proof (cases "s = []")
  case True
  then show ?thesis by (simp add: py_strip_def)
next
  case False
  then have "dropWhile py_isspace s = s"
    using assms by (simp add: dropWhile_eq_self_iff)
  moreover have "dropWhile py_isspace (rev s) = rev s"
    using assms False by (simp add: dropWhile_eq_self_iff hd_rev)
  ultimately show ?thesis by (simp add: py_strip_def)
qed

lemma py_strip_fixed:
  assumes "py_strip s = s" and "s \<noteq> []"
  shows "\<not> py_isspace (hd s) \<and> \<not> py_isspace (last s)"
proof -
  have l: "length (py_strip s) \<le> length (dropWhile py_isspace s)"
    unfolding py_strip_def using length_dropWhile_le [of py_isspace "rev (dropWhile py_isspace s)"]
    by simp
  have 1: "\<not> py_isspace (hd s)"
  proof
    assume "py_isspace (hd s)"
    then have "length (dropWhile py_isspace s) < length s"
      using assms(2) by (cases s) (simp_all add: le_imp_less_Suc length_dropWhile_le)
    then show False using l assms(1) by simp
  qed
  then have d: "dropWhile py_isspace s = s"
    using assms(2) by (simp add: dropWhile_eq_self_iff)
  have 2: "\<not> py_isspace (last s)"
  proof
    assume "py_isspace (last s)"
    then have "py_isspace (hd (rev s))"
      using assms(2) by (simp add: hd_rev)
    then have "length (dropWhile py_isspace (rev s)) < length (rev s)"
      using assms(2) by (cases "rev s") (simp_all add: le_imp_less_Suc length_dropWhile_le)
    then have "length (py_strip s) < length s"
      by (simp add: py_strip_def d)
    then show False using assms(1) by simp
  qed
  from 1 2 show ?thesis ..
qed

lemma py_isspace_LF: "py_isspace LF"
  by (simp add: py_isspace_def LF_def)

lemma py_strip_line:
  assumes "py_strip l = l"
  shows "py_strip (l @ [LF]) = l"
proof (cases "l = []")
  case True
  then show ?thesis by (simp add: py_strip_def py_isspace_LF)
next
  case False
  then have h: "\<not> py_isspace (hd l)" "\<not> py_isspace (last l)"
    using py_strip_fixed [OF assms] by simp_all
  have 1: "dropWhile py_isspace (l @ [LF]) = l @ [LF]"
    using False h(1) by (simp add: dropWhile_eq_self_iff)
  have 2: "dropWhile py_isspace (rev l) = rev l"
    using False h(2) by (simp add: dropWhile_eq_self_iff hd_rev)
  show ?thesis
    unfolding py_strip_def 1 by (simp add: py_isspace_LF 2)
qed

lemma int_body_decimal: "s \<noteq> [] \<Longrightarrow> list_all is_decimal s \<Longrightarrow> int_body s"
  by (induction s rule: int_body.induct) (auto simp add: decimal_plain)

lemma digits_val_snoc: "digits_val (s @ [c]) = 10 * digits_val s + digit_val c"
  by (simp add: digits_val_def)

lemma digits_val_str_nat: "digits_val (str_nat n) = n"
proof (induction n rule: str_nat.induct)
  case (1 n)
  show ?case
  proof (cases "n < 10")
    case True
    then show ?thesis
      by (subst str_nat.simps) (simp add: digits_val_def digit_val_digit)
  next
    case False
    then have "digits_val (str_nat n) = 10 * digits_val (str_nat (n div 10)) + n mod 10"
      by (subst str_nat.simps) (simp add: digits_val_snoc digit_val_digit)
    then show ?thesis
      using "1.IH" False by simp
  qed
qed

lemma decimal_strip: "list_all is_decimal s \<Longrightarrow> py_strip s = s"
proof (rule py_strip_id)
  assume "list_all is_decimal s"
  then show "s = [] \<or> (\<not> py_isspace (hd s) \<and> \<not> py_isspace (last s))"
    by (cases "s = []") (simp_all add: list_all_iff decimal_plain(1))
qed

lemma py_int_str_nat: "py_int (str_nat n) = Inr (int n)"
proof -
  have d: "list_all is_decimal (str_nat n)" and ne: "str_nat n \<noteq> []"
    using str_nat_decimal by simp_all
  have h: "is_decimal (hd (str_nat n))"
    using d ne by (cases "str_nat n") simp_all
  have f: "filter (\<lambda>c. c \<noteq> CHR ''_'') (str_nat n) = str_nat n"
    using d by (simp add: list_all_iff decimal_plain(3))
  show ?thesis
    using ne decimal_plain(4,5) [OF h]
    by (simp add: py_int_def Let_def decimal_strip [OF d] int_body_decimal [OF ne d] f
        digits_val_str_nat)
qed

lemma translate_newlines_id: "CR \<notin> set s \<Longrightarrow> translate_newlines s = s"
  by (induction s) auto

lemma readlines_line: "LF \<notin> set l \<Longrightarrow> readlines (l @ LF # rest) = (l @ [LF]) # readlines rest"
  by (induction l) auto

lemma readlines_concat:
  "\<forall>l \<in> set xs. LF \<notin> set l \<Longrightarrow>
   readlines (concat (map (\<lambda>l. l @ [LF]) xs)) = map (\<lambda>l. l @ [LF]) xs"
  by (induction xs) (simp_all add: readlines_line)

lemma first_token_written:
  "first_token (str_nat i @ '' '' @ rest) = str_nat i"
proof -
  have "\<forall>c \<in> set (str_nat i). c \<noteq> CHR '' ''"
    using str_nat_decimal [of i] by (auto simp add: list_all_iff decimal_plain(2))
  then show ?thesis
    by (simp add: first_token_def)
qed

lemma line_entry_written:
  assumes "py_strip l = l"
  shows "line_entry (str_nat i @ '' '' @ l @ [LF]) = Some (int i, l)"
proof -
  have n: "\<forall>c \<in> set (str_nat i). c \<noteq> CHR '' ''"
    using str_nat_decimal [of i] by (auto simp add: list_all_iff decimal_plain(2))
  then have t: "takeWhile (\<lambda>c. c \<noteq> CHR '' '') (str_nat i @ '' '' @ l @ [LF]) = str_nat i"
    by simp
  have d: "dropWhile (\<lambda>c. c \<noteq> CHR '' '') (str_nat i @ '' '' @ l @ [LF]) = '' '' @ l @ [LF]"
    using n by simp
  show ?thesis
    unfolding line_entry_def t d
    using py_strip_line [OF assms] by (simp add: py_int_str_nat)
qed

lemma entries_written:
  "\<forall>l \<in> set ls. py_strip l = l \<Longrightarrow>
   map line_entry (map (\<lambda>(index, label). str_nat index @ '' '' @ label @ [LF]) (enumerate n ls)) =
   map Some (map (\<lambda>(index, label). (int index, label)) (enumerate n ls))"
proof (induction ls arbitrary: n)
  case Nil
  show ?case by simp
next
  case (Cons l ls)
  have "line_entry (str_nat n @ '' '' @ l @ [LF]) = Some (int n, l)"
    using Cons.prems by (intro line_entry_written) simp
  then show ?case
    using Cons.IH [of "Suc n"] Cons.prems by simp
qed

lemma labels_dict_enumerate:
  "labels_dict ls = map (\<lambda>(index, label). (int index, label)) (enumerate 0 ls)"
  by (simp add: labels_dict_def enumerate_eq_zip zip_map1)

lemma distinct_labels_dict: "distinct (map fst (labels_dict ls))"
  by (simp add: labels_dict_def distinct_map inj_on_def)

lemma decimal_no_break: "list_all is_decimal s \<Longrightarrow> LF \<notin> set s \<and> CR \<notin> set s"
  by (auto simp add: list_all_iff dest: decimal_plain(6,7))

lemma load_written_indexed:
  assumes "\<forall>l \<in> set ls. LF \<notin> set l \<and> CR \<notin> set l \<and> py_strip l = l"
    and "fs path = Some (write_labels_indexed ls)"
  shows "load_labels fs path = Inr (labels_dict ls)"
proof (cases "ls = []")
  case True
  then show ?thesis
    using assms(2) by (simp add: write_labels_indexed_def load_labels_def labels_dict_def)
next
  case False
  define body where "body = map (\<lambda>(index, label). str_nat index @ '' '' @ label) (enumerate 0 ls)"
  define lines where "lines = map (\<lambda>l. l @ [LF]) body"
  have w: "write_labels_indexed ls = concat lines"
    by (simp add: write_labels_indexed_def lines_def body_def comp_def case_prod_unfold)
  have in_body: "\<exists>i l. l \<in> set ls \<and> b = str_nat i @ '' '' @ l" if b: "b \<in> set body" for b
  proof -
    obtain p where p: "p \<in> set (enumerate 0 ls)" "b = str_nat (fst p) @ '' '' @ snd p"
      using b unfolding body_def case_prod_unfold by auto
    then have "fst p < length ls" "ls ! fst p = snd p"
      by (simp_all add: in_set_enumerate_eq)
    then have "snd p \<in> set ls"
      using nth_mem [of "fst p" ls] by simp
    with p(2) show ?thesis by blast
  qed
  have no_lf: "\<forall>b \<in> set body. LF \<notin> set b"
  proof
    fix b assume "b \<in> set body"
    then obtain i l where "l \<in> set ls" "b = str_nat i @ '' '' @ l"
      using in_body by blast
    then show "LF \<notin> set b"
      using assms(1) decimal_no_break [of "str_nat i"] str_nat_decimal [of i]
      by (auto simp add: LF_def)
  qed
  have no_cr: "CR \<notin> set (concat lines)"
  proof -
    have "CR \<notin> set b" if b: "b \<in> set body" for b
    proof -
      obtain i l where "l \<in> set ls" "b = str_nat i @ '' '' @ l"
        using in_body b by blast
      then show ?thesis
        using assms(1) decimal_no_break [of "str_nat i"] str_nat_decimal [of i]
        by (auto simp add: CR_def)
    qed
    then show ?thesis
      by (auto simp add: lines_def CR_def LF_def)
  qed
  have r: "lines = readlines (translate_newlines (write_labels_indexed ls))"
    unfolding w translate_newlines_id [OF no_cr]
    unfolding lines_def using readlines_concat [OF no_lf] by simp
  have "lines = map (\<lambda>(index, label). str_nat index @ '' '' @ label @ [LF]) (enumerate 0 ls)"
    by (simp add: lines_def body_def case_prod_unfold)
  then have e: "map line_entry lines = map Some (labels_dict ls)"
    using assms(1) entries_written [of ls 0] by (simp add: labels_dict_enumerate)
  have ne: "lines \<noteq> []"
    using False by (cases ls) (simp_all add: lines_def body_def)
  have "hd lines = str_nat 0 @ '' '' @ hd ls @ [LF]"
    using False by (cases ls) (simp_all add: lines_def body_def)
  then have "first_token (hd lines) = str_nat 0"
    using first_token_written [of 0 "hd ls @ [LF]"] by simp
  then have dg: "py_isdigit (first_token (hd lines))"
    using str_nat_decimal [of 0]
    by (auto simp add: py_isdigit_def list_all_iff decimal_plain(8))
  have "load_labels fs path = Inr (dict_update [] (labels_dict ls))"
    unfolding load_labels_lines [of fs path "write_labels_indexed ls" lines, OF assms(2) r]
    using ne dg indexed_labels_entries [OF e, of "[]"] by simp
  then show ?thesis
    using dict_update_distinct [of "[]" "labels_dict ls"] distinct_labels_dict [of ls] by simp
qed

lemma load_written_bare:
  assumes "\<forall>l \<in> set ls. LF \<notin> set l \<and> CR \<notin> set l \<and> py_strip l = l"
    and "fs path = Some (write_labels_bare ls)"
    and "ls \<noteq> [] \<longrightarrow> \<not> (CHR '' '' \<in> set (hd ls) \<and> py_isdigit (first_token (hd ls)))"
  shows "load_labels fs path = Inr (labels_dict ls)"
proof (cases "ls = []")
  case True
  then show ?thesis
    using assms(2) by (simp add: write_labels_bare_def load_labels_def labels_dict_def)
next
  case False
  define lines where "lines = map (\<lambda>l. l @ [LF]) ls"
  have w: "write_labels_bare ls = concat lines"
    by (simp add: write_labels_bare_def lines_def)
  have no_lf: "\<forall>l \<in> set ls. LF \<notin> set l"
    using assms(1) by simp
  have no_cr: "CR \<notin> set (concat lines)"
    using assms(1) by (auto simp add: lines_def CR_def LF_def)
  have r: "lines = readlines (translate_newlines (write_labels_bare ls))"
    unfolding w translate_newlines_id [OF no_cr]
    unfolding lines_def using readlines_concat [OF no_lf] by simp
  have ne: "lines \<noteq> []"
    using False by (simp add: lines_def)
  have hd: "hd lines = hd ls @ [LF]"
    using False by (cases ls) (simp_all add: lines_def)
  have nd: "\<not> py_isdigit (first_token (hd lines))"
  proof (cases "CHR '' '' \<in> set (hd ls)")
    case True
    then have "first_token (hd ls @ [LF]) = first_token (hd ls)"
      by (simp add: first_token_def)
    then show ?thesis
      using assms(3) False True by (simp add: hd)
  next
    case False
    then have "first_token (hd ls @ [LF]) = hd ls @ [LF]"
      by (auto simp add: first_token_def LF_def)
    moreover have "\<not> is_digit_char LF"
      by (simp add: is_digit_char_def is_decimal_def LF_def)
    ultimately show ?thesis
      by (simp add: hd py_isdigit_def)
  qed
  have "map py_strip lines = ls"
    using assms(1) by (simp add: lines_def py_strip_line map_idI)
  then have "sequential_labels lines = labels_dict ls"
    by (simp add: sequential_labels_zip labels_dict_def lines_def)
  then show ?thesis
    unfolding load_labels_lines [of fs path "write_labels_bare ls" lines, OF assms(2) r]
    using ne nd by simp
qed

lemma str_nat_0: "str_nat 0 = ''0''"
  by code_simp

section \<open>The claims\<close>

text \<open>
  C2. After the loop over the images has completed, the table is rebuilt once for every
  index of the accumulated lists: after \<open>k\<close> rounds \<open>img_csv\<close> holds the seven keys
  once, the whole accumulated lists under \<open>label_id\<close>, \<open>x\<close>, \<open>y\<close>, \<open>w\<close>, \<open>h\<close> and
  \<open>confidence\<close>, and the single file name \<open>img_n[k - 1]\<close>; each round replaces what the
  round before stored, and the loop makes \<open>len(img_x)\<close> rounds.
\<close>

theorem table_rebuilt_per_index:
  assumes "image_loop w a labels imgs (initial_state it name) = (st, None)"
    and "k \<le> length (img_x st)"
  shows "csv_loop st [0 ..< k] [] =
           Inr (if k = 0 then []
                else [(''image_filename'', Filename (img_n st ! (k - 1))),
                      (''label_id'', Ids (img_id st)),
                      (''x'', Coords (img_x st)),
                      (''y'', Coords (img_y st)),
                      (''w'', Coords (img_w st)),
                      (''h'', Coords (img_h st)),
                      (''confidence'', Scores (img_score st))])
         \<and> build_csv st = csv_loop st [0 ..< length (img_x st)] []"
proof -
  have "length (img_n (fst (image_loop w a labels imgs (initial_state it name)))) =
      length (img_x (fst (image_loop w a labels imgs (initial_state it name))))"
    by (rule image_loop_aligned) (simp add: initial_state_def)
  then have "length (img_n st) = length (img_x st)"
    using assms(1) by simp
  then show ?thesis
    using assms(2) by (simp add: csv_loop_upt build_csv_def img_dict_def)
qed

theorem table_rebuilt_per_index_witness:
  "csv_loop (fst (image_loop (stub_world two_images (\<lambda>p. None) [one_detection, weak_detection])
       default_args [] two_images (initial_state 0 ''test_images/c.jpg''))) [0 ..< 1] [] =
     Inr [(''image_filename'', Filename ''test_images/a.jpg''),
          (''label_id'', Ids [7, 7]), (''x'', Coords [10, 10]), (''y'', Coords [20, 20]),
          (''w'', Coords [100, 100]), (''h'', Coords [200, 200]),
          (''confidence'', Scores [9 / 10, 9 / 10])]
   \<and> build_csv (fst (image_loop (stub_world two_images (\<lambda>p. None) [one_detection, weak_detection])
       default_args [] two_images (initial_state 0 ''test_images/c.jpg''))) =
     Inr [(''image_filename'', Filename ''test_images/b.jpg''),
          (''label_id'', Ids [7, 7]), (''x'', Coords [10, 10]), (''y'', Coords [20, 20]),
          (''w'', Coords [100, 100]), (''h'', Coords [200, 200]),
          (''confidence'', Scores [9 / 10, 9 / 10])]"
proof -
  define st :: "(nat, int, real) state" where
    "st = fst (image_loop (stub_world two_images (\<lambda>p. None) [one_detection, weak_detection])
       default_args [] two_images (initial_state 0 ''test_images/c.jpg''))"
  have "snd (image_loop (stub_world two_images (\<lambda>p. None) [one_detection, weak_detection])
       default_args [] two_images (initial_state 0 ''test_images/c.jpg'')) = None"
    by code_simp
  then have r: "image_loop (stub_world two_images (\<lambda>p. None) [one_detection, weak_detection])
       default_args [] two_images (initial_state 0 ''test_images/c.jpg'') = (st, None)"
    by (simp add: st_def prod_eq_iff)
  have acc: "img_n st = [''test_images/a.jpg'', ''test_images/b.jpg'']" "img_id st = [7, 7]"
    "img_x st = [10, 10]" "img_y st = [20, 20]" "img_w st = [100, 100]"
    "img_h st = [200, 200]" "img_score st = [9 / 10, 9 / 10]"
    unfolding st_def by code_simp+
  have k: "1 \<le> length (img_x st)" "2 \<le> length (img_x st)"
    by (simp_all add: acc)
  have "csv_loop st [0 ..< 1] [] =
     Inr [(''image_filename'', Filename ''test_images/a.jpg''),
          (''label_id'', Ids [7, 7]), (''x'', Coords [10, 10]), (''y'', Coords [20, 20]),
          (''w'', Coords [100, 100]), (''h'', Coords [200, 200]),
          (''confidence'', Scores [9 / 10, 9 / 10])]"
    using table_rebuilt_per_index [OF r k(1), THEN conjunct1] by (simp add: acc)
  moreover have "csv_loop st [0 ..< 2] [] =
     Inr [(''image_filename'', Filename ''test_images/b.jpg''),
          (''label_id'', Ids [7, 7]), (''x'', Coords [10, 10]), (''y'', Coords [20, 20]),
          (''w'', Coords [100, 100]), (''h'', Coords [200, 200]),
          (''confidence'', Scores [9 / 10, 9 / 10])]"
    using table_rebuilt_per_index [OF r k(2), THEN conjunct1] by (simp add: acc)
  moreover have "length (img_x st) = 2"
    by (simp add: acc)
  then have "build_csv st = csv_loop st [0 ..< 2] []"
    using table_rebuilt_per_index [OF r k(2), THEN conjunct2] by (simp only:)
  ultimately show ?thesis
    unfolding st_def by simp
qed





text \<open>
  C8. For a model argument with an \<open>@\<close>, make\_interpreter gives the runtime the text
  before the first \<open>@\<close> as the model path, and what follows the \<open>@\<close> does not change
  the result.
\<close>

theorem make_interpreter_drops_device:
  "CHR ''@'' \<notin> set m \<Longrightarrow>
   make_interpreter w (m @ CHR ''@'' # device) =
     (case interpreter_new w m of None \<Rightarrow> Inl RuntimeFailure | Some it \<Rightarrow> Inr it)
   \<and> make_interpreter w (m @ CHR ''@'' # device) = make_interpreter w (m @ CHR ''@'' # device')"
  by (simp add: make_interpreter_def py_split_first)

theorem make_interpreter_drops_device_witness:
  "make_interpreter (stub_world [] (\<lambda>p. None) []) ''model.tflite@usb:0'' = Inr 0"
  using make_interpreter_drops_device
    [of "''model.tflite''" "stub_world [] (\<lambda>p. None) []" "''usb:0''" "''usb:0''"]
  by (simp add: stub_world_def)

text \<open>
  C7. Two runs that differ only in \<open>--input\<close> do the same and end the same way, and the
  files a run opens are, in order, an initial part of what the pattern
  \<open>test_images/*.jpg\<close> matched.
\<close>

theorem input_flag_ignored:
  "main w (a\<lparr>input_arg := x\<rparr>) = main w (a\<lparr>input_arg := y\<rparr>) \<and>
   prefix (opened (fst (main w a))) (glob_files w ''test_images/*.jpg'')"
proof
  show "main w (a\<lparr>input_arg := x\<rparr>) = main w (a\<lparr>input_arg := y\<rparr>)"
    by (simp add: main_input)
  from main_events [of w a]
  show "prefix (opened (fst (main w a))) (glob_files w ''test_images/*.jpg'')"
  proof
    assume "fst (main w a) = []"
    then show ?thesis by simp
  next
    assume "\<exists>ls it. fst (main w a) =
      events (fst (image_loop w a ls (glob_files w ''test_images/*.jpg'')
        (initial_state it (glob_files w ''test_images/*.jpg'' ! 253))))"
    then obtain ls it where m: "fst (main w a) =
      events (fst (image_loop w a ls (glob_files w ''test_images/*.jpg'')
        (initial_state it (glob_files w ''test_images/*.jpg'' ! 253))))"
      by blast
    obtain ys where "prefix ys (glob_files w ''test_images/*.jpg'')"
      "opened (events (fst (image_loop w a ls (glob_files w ''test_images/*.jpg'')
        (initial_state it (glob_files w ''test_images/*.jpg'' ! 253))))) = ys"
      using opened_image_loop [of "glob_files w ''test_images/*.jpg''" w a ls
          "initial_state it (glob_files w ''test_images/*.jpg'' ! 253)"]
      by (auto simp add: initial_state_def)
    then show ?thesis
      using m by simp
  qed
qed




text \<open>
  C10. A run that completes the loop over the images ends with the AttributeError of
  \<open>img_csv.to_csv\<close>, the only statement that would write the table; and every run ends
  with an exception, so none writes it.
\<close>

theorem export_raises_attribute_error:
  "(\<exists>e. snd (main w a) = Some e) \<and>
   (labels_of_args w a = Inr ls \<and> make_interpreter w (model_arg a) = Inr it \<and>
    253 < length (glob_files w ''test_images/*.jpg'') \<and>
    image_loop w a ls (glob_files w ''test_images/*.jpg'')
      (initial_state (allocate_tensors w it) (glob_files w ''test_images/*.jpg'' ! 253)) =
      (st, None)
    \<longrightarrow> main w a = (events st, Some AttributeError))"
proof (intro conjI impI)
  show "\<exists>e. snd (main w a) = Some e" by (rule main_raises)
next
  assume h: "labels_of_args w a = Inr ls \<and> make_interpreter w (model_arg a) = Inr it \<and>
    253 < length (glob_files w ''test_images/*.jpg'') \<and>
    image_loop w a ls (glob_files w ''test_images/*.jpg'')
      (initial_state (allocate_tensors w it) (glob_files w ''test_images/*.jpg'' ! 253)) =
      (st, None)"
  have "length (img_n (fst (image_loop w a ls (glob_files w ''test_images/*.jpg'')
      (initial_state (allocate_tensors w it) (glob_files w ''test_images/*.jpg'' ! 253))))) =
    length (img_x (fst (image_loop w a ls (glob_files w ''test_images/*.jpg'')
      (initial_state (allocate_tensors w it) (glob_files w ''test_images/*.jpg'' ! 253)))))"
    by (rule image_loop_aligned) (simp add: initial_state_def)
  then have "length (img_n st) = length (img_x st)"
    using h by simp
  then obtain d where "build_csv st = Inr d"
    using build_csv_aligned by blast
  then show "main w a = (events st, Some AttributeError)"
    using h main_loop [of w a ls it st None] by simp
qed

theorem export_raises_attribute_error_witness:
  "snd (main (stub_world many_files (\<lambda>p. None) [one_detection]) default_args) =
     Some AttributeError"
proof -
  let ?w = "stub_world many_files (\<lambda>p. None) [one_detection]"
  let ?st0 = "initial_state (allocate_tensors ?w 0) (glob_files ?w ''test_images/*.jpg'' ! 253)
     :: (nat, int, real) state"
  have 1: "labels_of_args ?w default_args = Inr []"
    by (simp add: labels_of_args_def default_args_def)
  have 2: "make_interpreter ?w (model_arg default_args) = Inr 0"
    by (simp add: make_interpreter_def default_args_def stub_world_def)
  have 3: "253 < length (glob_files ?w ''test_images/*.jpg'')"
    by (simp add: stub_world_def many_files_def)
  have "snd (image_loop ?w default_args [] (glob_files ?w ''test_images/*.jpg'') ?st0) = None"
    by (rule image_loop_completes) (simp_all add: stub_world_def default_args_def)
  then have 4: "image_loop ?w default_args [] (glob_files ?w ''test_images/*.jpg'') ?st0 =
     (fst (image_loop ?w default_args [] (glob_files ?w ''test_images/*.jpg'') ?st0), None)"
    by (simp add: prod_eq_iff)
  from export_raises_attribute_error [of ?w default_args "[]" 0
      "fst (image_loop ?w default_args [] (glob_files ?w ''test_images/*.jpg'') ?st0)"] 1 2 3 4
  show ?thesis by simp
qed

text \<open>
  C1. The run with one matching image and a stub that returns one detection of score 0.9
  against the threshold 0.4 raises IndexError at \<open>print(img_name[253])\<close> and does
  nothing else.
\<close>

theorem single_image_run_raises:
  "main (stub_world [''test_images/a.jpg''] (\<lambda>p. None) [one_detection]) default_args =
     ([], Some IndexError)"
  by (simp add: main_def stub_world_def labels_of_args_def default_args_def make_interpreter_def)




text \<open>
  C6, as amended. For labels without a line break and without whitespace at either end,
  writing the labels of the keys 0, 1, ... in the format \<open><int> <label>\<close> and loading the
  file gives the mapping back; so does writing them as bare labels, when the first label
  does not begin with a token of digits followed by a space.
\<close>

theorem label_file_round_trip:
  assumes "\<forall>l \<in> set ls. LF \<notin> set l \<and> CR \<notin> set l \<and> py_strip l = l"
  shows "(fs path = Some (write_labels_indexed ls) \<longrightarrow>
            load_labels fs path = Inr (labels_dict ls)) \<and>
         (fs path = Some (write_labels_bare ls) \<and>
          (ls \<noteq> [] \<longrightarrow> \<not> (CHR '' '' \<in> set (hd ls) \<and> py_isdigit (first_token (hd ls)))) \<longrightarrow>
            load_labels fs path = Inr (labels_dict ls))"
  using load_written_indexed [OF assms, of fs path] load_written_bare [OF assms, of fs path]
  by blast

theorem label_file_round_trip_witness:
  "load_labels (labels_fs (write_labels_indexed [''cat'', ''hot dog''])) ''labels.txt'' =
     Inr [(0, ''cat''), (1, ''hot dog'')] \<and>
   load_labels (labels_fs (write_labels_bare [''cat'', ''hot dog''])) ''labels.txt'' =
     Inr [(0, ''cat''), (1, ''hot dog'')]"
proof -
  have h: "\<forall>l \<in> set [''cat'', ''hot dog'']. LF \<notin> set l \<and> CR \<notin> set l \<and> py_strip l = l"
    by (simp add: LF_def CR_def py_strip_def py_isspace_def)
  have i: "labels_fs (write_labels_indexed [''cat'', ''hot dog'']) ''labels.txt'' =
      Some (write_labels_indexed [''cat'', ''hot dog''])"
    by (simp add: labels_fs_def)
  have b: "labels_fs (write_labels_bare [''cat'', ''hot dog'']) ''labels.txt'' =
      Some (write_labels_bare [''cat'', ''hot dog'']) \<and>
      ([''cat'', ''hot dog''] \<noteq> [] \<longrightarrow>
        \<not> (CHR '' '' \<in> set (hd [''cat'', ''hot dog'']) \<and>
           py_isdigit (first_token (hd [''cat'', ''hot dog'']))))"
    by (simp add: labels_fs_def)
  have d: "labels_dict [''cat'', ''hot dog''] = [(0, ''cat''), (1, ''hot dog'')]"
    by (simp add: labels_dict_def upt_rec)
  show ?thesis
    using label_file_round_trip [OF h, of "labels_fs (write_labels_indexed [''cat'', ''hot dog''])" "''labels.txt''",
        THEN conjunct1, THEN mp, OF i]
      label_file_round_trip [OF h, of "labels_fs (write_labels_bare [''cat'', ''hot dog''])" "''labels.txt''",
        THEN conjunct2, THEN mp, OF b]
    unfolding d by blast
qed

text \<open>
  C6 as stated fails: a label with a leading space comes back without it, in either
  format.
\<close>

theorem label_file_round_trip_counterexample:
  "load_labels (labels_fs (write_labels_indexed ['' cat''])) ''labels.txt'' = Inr [(0, ''cat'')] \<and>
   load_labels (labels_fs (write_labels_bare ['' cat''])) ''labels.txt'' = Inr [(0, ''cat'')] \<and>
   labels_dict ['' cat''] = [(0, '' cat'')]"
  by (simp add: labels_fs_def write_labels_indexed_def write_labels_bare_def labels_dict_def
      str_nat_0 sequential_labels_def
      load_labels_def LF_def CR_def split1_def py_isdigit_def is_digit_char_def is_decimal_def
      label_pair_def py_int_def py_strip_def py_isspace_def dict_set_def digits_val_def
      digit_val_def)

end
